theory Spec2Isabelle
  imports Main "HOL-Library.Multiset"
begin

section \<open>The component pool (ComponentPool.h)\<close>

text \<open>
  \<^verbatim>\<open>ComponentPool<T>\<close> keeps two static containers of \<^verbatim>\<open>std::shared_ptr<T>\<close>:
  the vector \<^verbatim>\<open>allocated\<close> (the active sequence) and the queue \<^verbatim>\<open>unallocated\<close>
  (the free queue). A shared pointer is modelled by the address of the object it
  points to; pointer equality (\<^verbatim>\<open>std::remove\<close>) is equality of addresses. The
  objects live in a store that maps every address to the object's value, and
  \<^verbatim>\<open>std::make_shared<T>()\<close> takes the next address of an allocator that never hands
  an address out twice.
\<close>

type_synonym handle = nat
type_synonym entity = nat
type_synonym material = nat

record 'c pool =
  allocated :: "handle list"
  unallocated :: "handle list"
  objects :: "handle \<Rightarrow> 'c"
  next_handle :: handle

text \<open>
  The member functions of \<^verbatim>\<open>T\<close> that the pool calls are declared in
  \<^verbatim>\<open>IComponent\<close> but their bodies are not part of the sources at hand, so the pool is
  modelled for every choice of them: the value of a default-constructed \<^verbatim>\<open>T\<close>,
  \<^verbatim>\<open>Bind\<close> (called by the pool with the entity as its argument), \<^verbatim>\<open>Free\<close> and
  \<^verbatim>\<open>IsEnabled\<close>. Each of them acts on the one object it is called on.
\<close>

record 'c component_ops =
  make_shared :: "'c"
  IComponent_Bind :: "entity \<Rightarrow> 'c \<Rightarrow> 'c"
  IComponent_Free :: "'c \<Rightarrow> 'c"
  IComponent_IsEnabled :: "'c \<Rightarrow> bool"

definition POOL_SIZE :: nat where
  "POOL_SIZE = 32"

text \<open>The static members start out empty.\<close>

definition initial_pool :: "'c \<Rightarrow> 'c pool" where
  "initial_pool c0 = \<lparr>allocated = [], unallocated = [], objects = (\<lambda>_. c0), next_handle = 0\<rparr>"

text \<open>\<^verbatim>\<open>unallocated.push(std::make_shared<T>())\<close>\<close>

definition push_new :: "'c component_ops \<Rightarrow> 'c pool \<Rightarrow> 'c pool" where
  "push_new T p =
     p\<lparr>unallocated := unallocated p @ [next_handle p],
       objects := (objects p)(next_handle p := make_shared T),
       next_handle := Suc (next_handle p)\<rparr>"

text \<open>\<^verbatim>\<open>for (int i = 0; i < POOL_SIZE; i++) unallocated.push(std::make_shared<T>());\<close>\<close>

function allocate_loop :: "'c component_ops \<Rightarrow> nat \<Rightarrow> 'c pool \<Rightarrow> 'c pool" where
  "allocate_loop T i p =
     (if i < POOL_SIZE then allocate_loop T (i + 1) (push_new T p) else p)"
  by pat_completeness auto
termination
  by (relation "measure (\<lambda>(T, i, p). POOL_SIZE - i)") auto

declare allocate_loop.simps [simp del]

text \<open>
  \<^verbatim>\<open>ComponentPool<T>::Instantiate\<close>. The specialisation of \<^verbatim>\<open>Sort\<close> for the pool's
  type is the parameter \<open>Sort\<close>; it reads the objects through the store as it is
  after \<^verbatim>\<open>Bind\<close>. The result is the returned component and the pool afterwards.
\<close>

definition Instantiate ::
  "'c component_ops \<Rightarrow> ((handle \<Rightarrow> 'c) \<Rightarrow> handle list \<Rightarrow> handle list) \<Rightarrow>
   entity \<Rightarrow> 'c pool \<Rightarrow> handle \<times> 'c pool" where
  "Instantiate T Sort gameEntity p =
     (let p1 = (if length (unallocated p) = 0 then allocate_loop T 0 p else p);
          component = hd (unallocated p1);
          p2 = p1\<lparr>allocated := allocated p1 @ [component]\<rparr>;
          p3 = p2\<lparr>unallocated := tl (unallocated p2)\<rparr>;
          p4 = p3\<lparr>objects := (objects p3)(component :=
                     IComponent_Bind T gameEntity (objects p3 component))\<rparr>;
          p5 = p4\<lparr>allocated := Sort (objects p4) (allocated p4)\<rparr>
      in (component, p5))"

text \<open>
  \<^verbatim>\<open>ComponentPool<T>::Free\<close>: \<^verbatim>\<open>component->Free()\<close>, the push on the free queue, and
  the erase-remove idiom, which deletes every element equal to the component and
  keeps the others in their order. The function returns \<^verbatim>\<open>void\<close>, and its body has
  no test, assertion or \<^verbatim>\<open>throw\<close>: there is no error result to model.
\<close>

definition Free :: "'c component_ops \<Rightarrow> handle \<Rightarrow> 'c pool \<Rightarrow> 'c pool" where
  "Free T component p =
     (let p1 = p\<lparr>objects := (objects p)(component := IComponent_Free T (objects p component))\<rparr>;
          p2 = p1\<lparr>unallocated := unallocated p1 @ [component]\<rparr>
      in p2\<lparr>allocated := removeAll component (allocated p2)\<rparr>)"

text \<open>
  \<^verbatim>\<open>GetActiveCount\<close> returns \<^verbatim>\<open>allocated.size()\<close>, a \<^verbatim>\<open>size_t\<close>, as an \<^verbatim>\<open>int\<close> of 32
  bits: the conversion keeps the value modulo \<open>2^32\<close> and reads it in two's
  complement, so a size from \<open>2^31\<close> on comes out negative.
\<close>

definition size_to_int :: "nat \<Rightarrow> int" where
  "size_to_int n = (let m = int n mod 2 ^ 32 in if m < 2 ^ 31 then m else m - 2 ^ 32)"

definition GetActiveCount :: "'c pool \<Rightarrow> int" where
  "GetActiveCount p = size_to_int (length (allocated p))"

definition GetAll :: "'c pool \<Rightarrow> handle list" where
  "GetAll p = allocated p"

text \<open>The range-based loop of \<^verbatim>\<open>GetAllEnabled\<close>, with the vector \<^verbatim>\<open>enabled\<close> as accumulator.\<close>

fun enabled_loop :: "'c component_ops \<Rightarrow> (handle \<Rightarrow> 'c) \<Rightarrow> handle list \<Rightarrow> handle list \<Rightarrow> handle list" where
  "enabled_loop T objs [] enabled = enabled"
| "enabled_loop T objs (component # rest) enabled =
     enabled_loop T objs rest
       (if IComponent_IsEnabled T (objs component) then enabled @ [component] else enabled)"

definition GetAllEnabled :: "'c component_ops \<Rightarrow> 'c pool \<Rightarrow> handle list" where
  "GetAllEnabled T p = enabled_loop T (objects p) (allocated p) []"

subsection \<open>The comparators and \<^verbatim>\<open>std::sort\<close>\<close>

text \<open>The default \<^verbatim>\<open>static void Sort() {}\<close> leaves the vector as it is.\<close>

definition Sort_default :: "(handle \<Rightarrow> 'c) \<Rightarrow> handle list \<Rightarrow> handle list" where
  "Sort_default objs xs = xs"

text \<open>
  The lambda of \<^verbatim>\<open>ComponentPool<MeshRenderer>::Sort\<close>. \<^verbatim>\<open>MeshRenderer\<close> and
  \<^verbatim>\<open>Material\<close> are not among the sources, so \<^verbatim>\<open>GetMaterial\<close> (the address of the
  renderer's material) and \<^verbatim>\<open>GetTransparent\<close> (the flag of the material at an
  address) are parameters. \<^verbatim>\<open>operator<\<close> on shared pointers compares addresses.
\<close>

definition MeshRenderer_less ::
  "('c \<Rightarrow> material) \<Rightarrow> (material \<Rightarrow> bool) \<Rightarrow> (handle \<Rightarrow> 'c) \<Rightarrow> handle \<Rightarrow> handle \<Rightarrow> bool" where
  "MeshRenderer_less GetMaterial GetTransparent objs a b =
     (if GetTransparent (GetMaterial (objs a)) \<noteq> GetTransparent (GetMaterial (objs b))
      then GetTransparent (GetMaterial (objs b))
      else GetMaterial (objs a) < GetMaterial (objs b))"

text \<open>The lambda of \<^verbatim>\<open>ComponentPool<Light>::Sort\<close>.\<close>

definition Light_less ::
  "('c \<Rightarrow> 't::linorder) \<Rightarrow> (handle \<Rightarrow> 'c) \<Rightarrow> handle \<Rightarrow> handle \<Rightarrow> bool" where
  "Light_less GetType objs a b = (GetType (objs a) > GetType (objs b))"

text \<open>
  \<^verbatim>\<open>std::sort\<close> is a library function with no fixed algorithm. The standard asks
  for a comparator that is a strict weak ordering and then promises a permutation
  of the range in which no later element compares less than an earlier one. The
  pool is modelled for every function \<open>srt\<close> that keeps this contract.
\<close>

definition strict_weak_order :: "('a \<Rightarrow> 'a \<Rightarrow> bool) \<Rightarrow> bool" where
  "strict_weak_order lt \<longleftrightarrow>
     (\<forall>a. \<not> lt a a) \<and>
     (\<forall>a b c. lt a b \<and> lt b c \<longrightarrow> lt a c) \<and>
     (\<forall>a b c. \<not> lt a b \<and> \<not> lt b a \<and> \<not> lt b c \<and> \<not> lt c b
                \<longrightarrow> \<not> lt a c \<and> \<not> lt c a)"

definition std_sort_contract :: "(('a \<Rightarrow> 'a \<Rightarrow> bool) \<Rightarrow> 'a list \<Rightarrow> 'a list) \<Rightarrow> bool" where
  "std_sort_contract srt \<longleftrightarrow>
     (\<forall>lt xs. strict_weak_order lt \<longrightarrow>
        mset (srt lt xs) = mset xs \<and> sorted_wrt (\<lambda>a b. \<not> lt b a) (srt lt xs))"

definition Sort_MeshRenderer ::
  "((handle \<Rightarrow> handle \<Rightarrow> bool) \<Rightarrow> handle list \<Rightarrow> handle list) \<Rightarrow>
   ('c \<Rightarrow> material) \<Rightarrow> (material \<Rightarrow> bool) \<Rightarrow> (handle \<Rightarrow> 'c) \<Rightarrow> handle list \<Rightarrow> handle list" where
  "Sort_MeshRenderer srt GetMaterial GetTransparent objs xs =
     srt (MeshRenderer_less GetMaterial GetTransparent objs) xs"

definition Sort_Light ::
  "((handle \<Rightarrow> handle \<Rightarrow> bool) \<Rightarrow> handle list \<Rightarrow> handle list) \<Rightarrow>
   ('c \<Rightarrow> 't::linorder) \<Rightarrow> (handle \<Rightarrow> 'c) \<Rightarrow> handle list \<Rightarrow> handle list" where
  "Sort_Light srt GetType objs xs = srt (Light_less GetType objs) xs"

text \<open>
  One function that keeps the contract, to run the pool on concrete inputs:
  sorting by insertion with the comparator.
\<close>

fun insert_by :: "('a \<Rightarrow> 'a \<Rightarrow> bool) \<Rightarrow> 'a \<Rightarrow> 'a list \<Rightarrow> 'a list" where
  "insert_by lt x [] = [x]"
| "insert_by lt x (y # ys) = (if lt x y then x # y # ys else y # insert_by lt x ys)"

fun insertion_sort :: "('a \<Rightarrow> 'a \<Rightarrow> bool) \<Rightarrow> 'a list \<Rightarrow> 'a list" where
  "insertion_sort lt [] = []"
| "insertion_sort lt (x # xs) = insert_by lt x (insertion_sort lt xs)"

subsection \<open>The order of a renderer pool and of a light pool\<close>

text \<open>
  Opaque before transparent, and inside each of the two groups the addresses of
  the materials do not decrease: for every two positions, the earlier component
  against the later one.
\<close>

definition opaque_first_by_material ::
  "('c \<Rightarrow> material) \<Rightarrow> (material \<Rightarrow> bool) \<Rightarrow> (handle \<Rightarrow> 'c) \<Rightarrow> handle list \<Rightarrow> bool" where
  "opaque_first_by_material GetMaterial GetTransparent objs xs =
     sorted_wrt (\<lambda>a b.
        \<not> (GetTransparent (GetMaterial (objs a)) \<and> \<not> GetTransparent (GetMaterial (objs b))) \<and>
        (GetTransparent (GetMaterial (objs a)) = GetTransparent (GetMaterial (objs b))
           \<longrightarrow> GetMaterial (objs a) \<le> GetMaterial (objs b))) xs"

text \<open>The light types do not increase along the sequence.\<close>

definition type_descending :: "('c \<Rightarrow> 't::linorder) \<Rightarrow> (handle \<Rightarrow> 'c) \<Rightarrow> handle list \<Rightarrow> bool" where
  "type_descending GetType objs xs =
     sorted_wrt (\<lambda>a b. GetType (objs b) \<le> GetType (objs a)) xs"

text \<open>Components of one type stand next to each other: nothing of another type in between.\<close>

definition contiguous_by_type :: "('c \<Rightarrow> 't) \<Rightarrow> (handle \<Rightarrow> 'c) \<Rightarrow> handle list \<Rightarrow> bool" where
  "contiguous_by_type GetType objs xs \<longleftrightarrow>
     (\<forall>k < length xs. \<forall>j < k. \<forall>i < j.
        GetType (objs (xs ! i)) = GetType (objs (xs ! k))
          \<longrightarrow> GetType (objs (xs ! j)) = GetType (objs (xs ! i)))"

subsection \<open>Sequences of pool operations\<close>

datatype pool_op = Acquire entity | Release handle

fun apply_op ::
  "'c component_ops \<Rightarrow> ((handle \<Rightarrow> 'c) \<Rightarrow> handle list \<Rightarrow> handle list) \<Rightarrow> pool_op \<Rightarrow> 'c pool \<Rightarrow> 'c pool" where
  "apply_op T Sort (Acquire gameEntity) p = snd (Instantiate T Sort gameEntity p)"
| "apply_op T Sort (Release component) p = Free T component p"

fun run ::
  "'c component_ops \<Rightarrow> ((handle \<Rightarrow> 'c) \<Rightarrow> handle list \<Rightarrow> handle list) \<Rightarrow> pool_op list \<Rightarrow> 'c pool \<Rightarrow> 'c pool" where
  "run T Sort [] p = p"
| "run T Sort (x # xs) p = run T Sort xs (apply_op T Sort x p)"

text \<open>Every release in the sequence meets its handle in the active sequence.\<close>

fun releases_active ::
  "'c component_ops \<Rightarrow> ((handle \<Rightarrow> 'c) \<Rightarrow> handle list \<Rightarrow> handle list) \<Rightarrow> pool_op list \<Rightarrow> 'c pool \<Rightarrow> bool" where
  "releases_active T Sort [] p = True"
| "releases_active T Sort (Acquire gameEntity # xs) p =
     releases_active T Sort xs (apply_op T Sort (Acquire gameEntity) p)"
| "releases_active T Sort (Release component # xs) p =
     (component \<in> set (allocated p) \<and>
      releases_active T Sort xs (apply_op T Sort (Release component) p))"

fun acquires :: "pool_op list \<Rightarrow> nat" where
  "acquires [] = 0"
| "acquires (Acquire gameEntity # xs) = Suc (acquires xs)"
| "acquires (Release component # xs) = acquires xs"

fun releases :: "pool_op list \<Rightarrow> nat" where
  "releases [] = 0"
| "releases (Acquire gameEntity # xs) = releases xs"
| "releases (Release component # xs) = Suc (releases xs)"

text \<open>
  What the pool keeps true of its two containers: no handle twice, none in both,
  and each one handed out by the allocator before.
\<close>

definition pool_inv :: "'c pool \<Rightarrow> bool" where
  "pool_inv p \<longleftrightarrow>
     distinct (allocated p @ unallocated p) \<and>
     (\<forall>h \<in> set (allocated p @ unallocated p). h < next_handle p)"

text \<open>
  The three definitions of \<^verbatim>\<open>Sort\<close> in the header: the empty default and the two
  specialisations.
\<close>

definition pool_Sort ::
  "((handle \<Rightarrow> handle \<Rightarrow> bool) \<Rightarrow> handle list \<Rightarrow> handle list) \<Rightarrow>
   ('c \<Rightarrow> material) \<Rightarrow> (material \<Rightarrow> bool) \<Rightarrow> ('c \<Rightarrow> 't::linorder) \<Rightarrow>
   ((handle \<Rightarrow> 'c) \<Rightarrow> handle list \<Rightarrow> handle list) \<Rightarrow> bool" where
  "pool_Sort srt GetMaterial GetTransparent GetType Sort \<longleftrightarrow>
     Sort = Sort_default \<or>
     Sort = Sort_MeshRenderer srt GetMaterial GetTransparent \<or>
     Sort = Sort_Light srt GetType"

subsection \<open>A component type to run the pool with\<close>

text \<open>
  The fields of \<^verbatim>\<open>IComponent\<close> with their initial values, and one more field for
  what a derived class adds: the address of the material of a renderer, or the
  type of a light.
\<close>

record component =
  gameEntity :: "entity option"
  enabled :: bool
  hierarchyIsEnabled :: bool
  sort_key :: nat

text \<open>
  Modelled from the spec: the bodies of \<^verbatim>\<open>IComponent::Bind\<close>, \<^verbatim>\<open>IComponent::Free\<close>
  and \<^verbatim>\<open>IComponent::IsEnabled\<close> are missing. A component is bound to its owner on
  acquire and unbound on release, and it counts as enabled when it is enabled
  itself and its hierarchy is.
\<close>

definition component_T :: "component component_ops" where
  "component_T =
     \<lparr>make_shared = \<lparr>gameEntity = None, enabled = True, hierarchyIsEnabled = True, sort_key = 0\<rparr>,
      IComponent_Bind = (\<lambda>e c. c\<lparr>gameEntity := Some e\<rparr>),
      IComponent_Free = (\<lambda>c. c\<lparr>gameEntity := None\<rparr>),
      IComponent_IsEnabled = (\<lambda>c. enabled c \<and> hierarchyIsEnabled c)\<rparr>"

definition component_with :: "bool \<Rightarrow> nat \<Rightarrow> component" where
  "component_with en k = \<lparr>gameEntity = Some 0, enabled = en, hierarchyIsEnabled = True, sort_key = k\<rparr>"

text \<open>
  A pool with three bound components at the addresses 0, 1 and 2 and one free
  component at 3. The material at an odd address is transparent.
\<close>

definition objects3 :: "handle \<Rightarrow> component" where
  "objects3 = (\<lambda>h. make_shared component_T)
     (0 := component_with True 7, 1 := component_with False 4, 2 := component_with True 6)"

definition pool3 :: "component pool" where
  "pool3 = \<lparr>allocated = [0, 1, 2], unallocated = [3], objects = objects3, next_handle = 4\<rparr>"

text \<open>The pool of this component type before any operation.\<close>

definition pool0 :: "component pool" where
  "pool0 = initial_pool (make_shared component_T)"

definition odd_transparent :: "material \<Rightarrow> bool" where
  "odd_transparent m = odd m"

text \<open>The same pool with its active sequence in the order of a renderer pool, and of a light pool.\<close>

definition pool_by_material :: "component pool" where
  "pool_by_material = pool3\<lparr>allocated := [1, 2, 0]\<rparr>"

definition pool_by_type :: "component pool" where
  "pool_by_type = pool3\<lparr>allocated := [0, 2, 1]\<rparr>"

section \<open>The game loop (Game.cpp)\<close>

text \<open>
  The renderer, the cameras and \<^verbatim>\<open>DXCore\<close> are declared but not defined in the
  sources, so a call into them is recorded as an event, with its arguments. A
  \<^verbatim>\<open>std::shared_ptr<Camera>\<close> is the address of the camera, or \<open>None\<close> when it is null.
  The aspect ratio \<^verbatim>\<open>(float)width / (float)height\<close> is recorded by its two operands.
\<close>

type_synonym camera = nat

datatype MiscEffectSRVTypes =
  FLASHLIGHT_SHADOW | ENV_SHADOW | REFRACTION_SILHOUETTE_DEPTHS |
  TRANSPARENT_PREPASS_DEPTHS | RENDER_PREPASS_DEPTHS

datatype call =
    Camera_UpdateProjectionMatrix camera nat nat bool
  | Renderer_PreResize
  | DXCore_OnResize
  | Renderer_PostResize nat nat nat nat
  | Renderer_RenderShadows "camera option" MiscEffectSRVTypes
  | Renderer_Draw "camera option"

text \<open>The members of \<^verbatim>\<open>DXCore\<close> that \<^verbatim>\<open>Game\<close> reads.\<close>

record DXCore =
  width :: nat
  height :: nat
  backBufferRTV :: nat
  depthStencilView :: nat

text \<open>
  The members of \<^verbatim>\<open>Game\<close> that the three functions read or write, and the
  \<^verbatim>\<open>enabled\<close> flags of the lights that the asset manager holds; \<open>flashlight\<close> is the
  position of the light that \<^verbatim>\<open>GetFlashlight()\<close> returns.
\<close>

record Game =
  core :: DXCore
  mainCamera :: "camera option"
  flashShadowCamera :: "camera option"
  mainShadowCamera :: "camera option"
  flashMenuToggle :: bool
  flickeringEnabled :: bool
  lights_enabled :: "bool list"
  flashlight :: nat

text \<open>
  \<^verbatim>\<open>Game::FlickeringCheck\<close> and \<^verbatim>\<open>Game::Flashlight\<close>; the two arguments say whether
  the key actions \<^verbatim>\<open>ToggleFlashlight\<close> and \<^verbatim>\<open>ToggleFlashlightFlicker\<close> test true.
  The position and direction that the flashlight and its shadow camera copy from
  the main camera are vectors of floats and are left out; \<^verbatim>\<open>Draw\<close> reads none of them.
\<close>

definition FlickeringCheck :: "bool \<Rightarrow> Game \<Rightarrow> Game" where
  "FlickeringCheck toggleFlicker g =
     (if toggleFlicker then g\<lparr>flickeringEnabled := \<not> flickeringEnabled g\<rparr> else g)"

definition Flashlight :: "bool \<Rightarrow> bool \<Rightarrow> Game \<Rightarrow> Game" where
  "Flashlight toggleFlashlight toggleFlicker g =
     (let g1 = (if toggleFlashlight then g\<lparr>flashMenuToggle := \<not> flashMenuToggle g\<rparr> else g);
          g2 = (if flashMenuToggle g1
                then g1\<lparr>lights_enabled := (lights_enabled g1)[flashlight g1 := True]\<rparr>
                else g1\<lparr>lights_enabled := (lights_enabled g1)[flashlight g1 := False]\<rparr>)
      in if flashMenuToggle g2 then FlickeringCheck toggleFlicker g2 else g2)"

text \<open>\<^verbatim>\<open>Game::Draw\<close>: the calls it makes, in their order.\<close>

definition Draw :: "Game \<Rightarrow> call list" where
  "Draw g =
     (if flashMenuToggle g then [Renderer_RenderShadows (flashShadowCamera g) FLASHLIGHT_SHADOW] else [])
     @ [Renderer_RenderShadows (mainShadowCamera g) ENV_SHADOW]
     @ [Renderer_Draw (mainCamera g)]"

text \<open>
  \<^verbatim>\<open>Game::OnResize\<close>. \<^verbatim>\<open>DXCore::OnResize\<close> is not among the sources: the parameter
  \<open>dx\<close> is what it does to the members of \<^verbatim>\<open>DXCore\<close>. The result is the game
  afterwards and the calls made.
\<close>

definition OnResize :: "(DXCore \<Rightarrow> DXCore) \<Rightarrow> Game \<Rightarrow> Game \<times> call list" where
  "OnResize dx g =
     (let t1 = (case mainCamera g of
                  Some cam \<Rightarrow> [Camera_UpdateProjectionMatrix cam (width (core g)) (height (core g)) True]
                | None \<Rightarrow> []);
          t2 = [Renderer_PreResize];
          g' = g\<lparr>core := dx (core g)\<rparr>;
          t3 = [DXCore_OnResize];
          t4 = [Renderer_PostResize (height (core g')) (width (core g'))
                  (backBufferRTV (core g')) (depthStencilView (core g'))]
      in (g', t1 @ t2 @ t3 @ t4))"

text \<open>The first event comes before the second one in a sequence of events.\<close>

fun precedes :: "'a \<Rightarrow> 'a \<Rightarrow> 'a list \<Rightarrow> bool" where
  "precedes a b [] = False"
| "precedes a b (x # xs) = ((x = a \<and> b \<in> set xs) \<or> precedes a b xs)"





text \<open>A game to run.\<close>

definition game0 :: Game where
  "game0 = \<lparr>core = \<lparr>width = 1280, height = 720, backBufferRTV = 1, depthStencilView = 2\<rparr>,
     mainCamera = Some 10, flashShadowCamera = Some 11, mainShadowCamera = Some 12,
     flashMenuToggle = False, flickeringEnabled = False,
     lights_enabled = [False, False, False, False, False], flashlight = 4\<rparr>"

section \<open>The loading screen (Game::DrawLoadingScreen)\<close>

text \<open>
  What the presenter reads from the asset manager. The stored
  \<^verbatim>\<open>std::exception_ptr\<close> is null, or holds an exception derived from
  \<^verbatim>\<open>std::exception\<close> (with its \<^verbatim>\<open>what()\<close>), or holds something else.
\<close>

datatype AMLoadState = INITIALIZING | SINGLE_CREATION | COMPLEX_CREATION | SCENE_LOAD















section \<open>Facts about the pool\<close>

subsection \<open>The batch loop\<close>

lemma allocate_loop_step:
  "i < POOL_SIZE \<Longrightarrow> allocate_loop T i p = allocate_loop T (i + 1) (push_new T p)"
  by (subst allocate_loop.simps) simp

lemma allocate_loop_stop: "\<not> i < POOL_SIZE \<Longrightarrow> allocate_loop T i p = p"
  by (subst allocate_loop.simps) simp

lemma allocate_loop_allocated: "allocated (allocate_loop T i p) = allocated p"
proof (induction T i p rule: allocate_loop.induct)
  case (1 T i p)
  show ?case
  proof (cases "i < POOL_SIZE")
    case True
    have "allocated (push_new T p) = allocated p" by (simp add: push_new_def)
    with True "1.IH" show ?thesis by (simp add: allocate_loop_step)
  next
    case False
    then show ?thesis by (simp add: allocate_loop_stop)
  qed
qed

lemma allocate_loop_next_handle:
  "next_handle (allocate_loop T i p) = next_handle p + (POOL_SIZE - i)"
proof (induction T i p rule: allocate_loop.induct)
  case (1 T i p)
  show ?case
  proof (cases "i < POOL_SIZE")
    case True
    from True obtain k where k: "POOL_SIZE - i = Suc k" "POOL_SIZE - (i + 1) = k"
      by (cases "POOL_SIZE - i") auto
    have "next_handle (push_new T p) = Suc (next_handle p)"
      by (simp add: push_new_def)
    with "1.IH" [OF True] have "next_handle (allocate_loop T (i + 1) (push_new T p)) =
        Suc (next_handle p) + k" unfolding k by simp
    then show ?thesis unfolding allocate_loop_step [OF True] k by simp
  next
    case False
    then have "POOL_SIZE - i = 0" by simp
    with False show ?thesis by (simp add: allocate_loop_stop)
  qed
qed

lemma allocate_loop_unallocated:
  "unallocated (allocate_loop T i p) =
     unallocated p @ [next_handle p ..< next_handle p + (POOL_SIZE - i)]"
proof (induction T i p rule: allocate_loop.induct)
  case (1 T i p)
  show ?case
  proof (cases "i < POOL_SIZE")
    case True
    from True obtain k where k: "POOL_SIZE - i = Suc k" "POOL_SIZE - (i + 1) = k"
      by (cases "POOL_SIZE - i") auto
    have up: "[next_handle p ..< next_handle p + Suc k] =
          next_handle p # [Suc (next_handle p) ..< Suc (next_handle p) + k]"
      by (simp only: upt_conv_Cons [of "next_handle p" "next_handle p + Suc k"])
         simp
    have pn: "unallocated (push_new T p) = unallocated p @ [next_handle p]"
      "next_handle (push_new T p) = Suc (next_handle p)"
      by (simp_all add: push_new_def)
    from "1.IH" [OF True] have "unallocated (allocate_loop T (i + 1) (push_new T p)) =
        (unallocated p @ [next_handle p]) @ [Suc (next_handle p) ..< Suc (next_handle p) + k]"
      unfolding k pn .
    then show ?thesis unfolding allocate_loop_step [OF True] k up by simp
  next
    case False
    then have "POOL_SIZE - i = 0" by simp
    with False show ?thesis by (simp add: allocate_loop_stop)
  qed
qed

lemma allocate_loop_objects:
  "objects (allocate_loop T i p) h =
     (if next_handle p \<le> h \<and> h < next_handle p + (POOL_SIZE - i) then make_shared T
      else objects p h)"
proof (induction T i p rule: allocate_loop.induct)
  case (1 T i p)
  show ?case
  proof (cases "i < POOL_SIZE")
    case True
    from True obtain k where k: "POOL_SIZE - i = Suc k" "POOL_SIZE - (i + 1) = k"
      by (cases "POOL_SIZE - i") auto
    have pn: "objects (push_new T p) = (objects p)(next_handle p := make_shared T)"
      "next_handle (push_new T p) = Suc (next_handle p)"
      by (simp_all add: push_new_def)
    from "1.IH" [OF True] have "objects (allocate_loop T (i + 1) (push_new T p)) h =
       (if Suc (next_handle p) \<le> h \<and> h < Suc (next_handle p) + k then make_shared T
        else ((objects p)(next_handle p := make_shared T)) h)"
      unfolding k pn .
    then show ?thesis unfolding allocate_loop_step [OF True] k by auto
  next
    case False
    then have "POOL_SIZE - i = 0" by simp
    with False show ?thesis by (auto simp add: allocate_loop_stop)
  qed
qed

lemma enabled_loop_filter:
  "enabled_loop T objs xs acc = acc @ filter (\<lambda>c. IComponent_IsEnabled T (objs c)) xs"
  by (induction xs arbitrary: acc) auto

lemma mset_insert_by: "mset (insert_by lt x xs) = add_mset x (mset xs)"
  by (induction xs) auto

lemma mset_insertion_sort: "mset (insertion_sort lt xs) = mset xs"
  by (induction xs) (auto simp: mset_insert_by)

lemma set_insert_by: "set (insert_by lt x xs) = insert x (set xs)"
  by (induction xs) auto

lemma sorted_insert_by:
  assumes irr: "\<And>a. \<not> lt a a" and tr: "\<And>a b c. lt a b \<Longrightarrow> lt b c \<Longrightarrow> lt a c"
  shows "sorted_wrt (\<lambda>a b. \<not> lt b a) xs \<Longrightarrow> sorted_wrt (\<lambda>a b. \<not> lt b a) (insert_by lt x xs)"
proof (induction xs)
  case Nil
  then show ?case by simp
next
  case (Cons y ys)
  show ?case
  proof (cases "lt x y")
    case True
    have "\<not> lt y x" using True irr tr by blast
    moreover have "\<forall>z\<in>set ys. \<not> lt z x"
    proof
      fix z assume "z \<in> set ys"
      with Cons.prems have "\<not> lt z y" by simp
      with True tr show "\<not> lt z x" by blast
    qed
    ultimately show ?thesis using True Cons.prems by simp
  next
    case False
    with Cons show ?thesis by (auto simp: set_insert_by)
  qed
qed

lemma sorted_insertion_sort:
  assumes irr: "\<And>a. \<not> lt a a" and tr: "\<And>a b c. lt a b \<Longrightarrow> lt b c \<Longrightarrow> lt a c"
  shows "sorted_wrt (\<lambda>a b. \<not> lt b a) (insertion_sort lt xs)"
  by (induction xs) (auto intro: sorted_insert_by [OF irr tr])

lemma insertion_sort_contract: "std_sort_contract insertion_sort"
  unfolding std_sort_contract_def
proof (intro allI impI conjI)
  fix lt :: "'a \<Rightarrow> 'a \<Rightarrow> bool" and xs
  assume swo: "strict_weak_order lt"
  show "mset (insertion_sort lt xs) = mset xs" by (rule mset_insertion_sort)
  from swo have irr: "\<And>a. \<not> lt a a"
    and tr: "\<And>a b c. lt a b \<Longrightarrow> lt b c \<Longrightarrow> lt a c"
    unfolding strict_weak_order_def by blast+
  show "sorted_wrt (\<lambda>a b. \<not> lt b a) (insertion_sort lt xs)"
    by (rule sorted_insertion_sort [OF irr tr])
qed

lemma MeshRenderer_less_swo:
  "strict_weak_order (MeshRenderer_less GetMaterial GetTransparent objs)"
  unfolding strict_weak_order_def MeshRenderer_less_def
  by (auto split: if_splits)

lemma Light_less_swo: "strict_weak_order (Light_less GetType objs)"
  unfolding strict_weak_order_def Light_less_def by auto

subsection \<open>What the two operations do to the members\<close>

lemma Instantiate_front:
  "unallocated p \<noteq> [] \<Longrightarrow>
     Instantiate T Sort e p =
       (hd (unallocated p),
        p\<lparr>allocated := Sort ((objects p)(hd (unallocated p) :=
                           IComponent_Bind T e (objects p (hd (unallocated p)))))
                        (allocated p @ [hd (unallocated p)]),
          unallocated := tl (unallocated p),
          objects := (objects p)(hd (unallocated p) :=
                           IComponent_Bind T e (objects p (hd (unallocated p))))\<rparr>)"
  by (simp add: Instantiate_def Let_def)

lemma allocate_loop_0_unallocated:
  "unallocated p = [] \<Longrightarrow>
     unallocated (allocate_loop T 0 p) = next_handle p # [Suc (next_handle p) ..< next_handle p + 32]"
  by (simp add: allocate_loop_unallocated POOL_SIZE_def upt_conv_Cons)

text \<open>\<^verbatim>\<open>unallocated.front()\<close> is never taken of an empty queue.\<close>

lemma Instantiate_queue_not_empty:
  "unallocated (if length (unallocated p) = 0 then allocate_loop T 0 p else p) \<noteq> []"
  by (simp add: allocate_loop_0_unallocated)

lemma Instantiate_fst:
  "fst (Instantiate T Sort e p) =
     (if unallocated p = [] then next_handle p else hd (unallocated p))"
  by (simp add: Instantiate_def Let_def allocate_loop_0_unallocated)

lemma Instantiate_unallocated:
  "unallocated (snd (Instantiate T Sort e p)) =
     (if unallocated p = [] then [Suc (next_handle p) ..< next_handle p + 32]
      else tl (unallocated p))"
  by (simp add: Instantiate_def Let_def allocate_loop_0_unallocated)

lemma Instantiate_next_handle:
  "next_handle (snd (Instantiate T Sort e p)) =
     (if unallocated p = [] then next_handle p + 32 else next_handle p)"
  by (simp add: Instantiate_def Let_def allocate_loop_next_handle POOL_SIZE_def)

lemma Instantiate_objects:
  "objects (snd (Instantiate T Sort e p)) =
     (if unallocated p = []
      then (\<lambda>h. if next_handle p = h then IComponent_Bind T e (make_shared T)
                else if next_handle p < h \<and> h < next_handle p + 32 then make_shared T
                else objects p h)
      else (objects p)(hd (unallocated p) := IComponent_Bind T e (objects p (hd (unallocated p)))))"
  by (auto simp add: Instantiate_def Let_def allocate_loop_0_unallocated
        allocate_loop_objects POOL_SIZE_def fun_eq_iff)

lemma Instantiate_allocated:
  "allocated (snd (Instantiate T Sort e p)) =
     Sort (objects (snd (Instantiate T Sort e p))) (allocated p @ [fst (Instantiate T Sort e p)])"
  by (simp add: Instantiate_def Let_def allocate_loop_allocated)

lemma Free_allocated: "allocated (Free T c p) = removeAll c (allocated p)"
  by (simp add: Free_def Let_def)

lemma Free_unallocated: "unallocated (Free T c p) = unallocated p @ [c]"
  by (simp add: Free_def Let_def)

lemma Free_next_handle: "next_handle (Free T c p) = next_handle p"
  by (simp add: Free_def Let_def)

lemma Free_objects:
  "objects (Free T c p) = (objects p)(c := IComponent_Free T (objects p c))"
  by (simp add: Free_def Let_def)

lemma run_append: "run T Sort (xs @ ys) p = run T Sort ys (run T Sort xs p)"
  by (induction xs arbitrary: p) auto

subsection \<open>The queries\<close>

lemma size_to_int_small: "n < 2 ^ 31 \<Longrightarrow> size_to_int n = int n"
proof -
  assume n: "n < 2 ^ 31"
  then have "int n < 2 ^ 31" by (metis of_nat_less_iff of_nat_numeral of_nat_power)
  moreover from this have "int n mod 2 ^ 32 = int n" by simp
  ultimately show ?thesis by (simp add: size_to_int_def)
qed

text \<open>The conversion at the first size that does not fit.\<close>

lemma size_to_int_wraps: "size_to_int (2 ^ 31) = - 2147483648"
  by (simp add: size_to_int_def)

text \<open>
  Claim C6. In every pool state \<^verbatim>\<open>GetAll()\<close> returns the active sequence and
  \<^verbatim>\<open>GetAllEnabled()\<close> returns the components of the active sequence for which
  \<^verbatim>\<open>IsEnabled()\<close> is true, in the order in which they stand in the active sequence.
  \<^verbatim>\<open>GetActiveCount()\<close> is the length of the active sequence as long as that length
  fits the \<^verbatim>\<open>int\<close> it is returned in, that is, below \<open>2^31\<close>.
\<close>
theorem C6_queries:
  "GetAll p = allocated p \<and>
   (length (allocated p) < 2 ^ 31 \<longrightarrow> GetActiveCount p = int (length (GetAll p))) \<and>
   GetAllEnabled T p = filter (\<lambda>component. IComponent_IsEnabled T (objects p component)) (GetAll p)"
  by (simp add: GetAll_def GetActiveCount_def GetAllEnabled_def enabled_loop_filter
        size_to_int_small)

theorem C6_queries_witness:
  "length (allocated pool3) < 2 ^ 31 \<and>
   GetAll pool3 = [0, 1, 2] \<and> GetActiveCount pool3 = 3 \<and> GetAllEnabled component_T pool3 = [0, 2]"
  using C6_queries [of pool3 component_T]
  by (simp add: pool3_def objects3_def component_T_def component_with_def)

subsection \<open>Exhaustion\<close>

text \<open>
  Claim C4. When the free queue is empty, \<^verbatim>\<open>Instantiate\<close> first puts one batch of
  32 new instances on the free queue (the addresses from \<open>next_handle p\<close> on, which
  the allocator has not handed out before), returns the first of them, and leaves
  31 on the free queue. When the free queue is not empty, \<^verbatim>\<open>Instantiate\<close> allocates
  nothing: it returns the front of the queue and the allocator stays where it was.
\<close>
theorem C4_exhaustion:
  "(unallocated p = [] \<longrightarrow>
      unallocated (allocate_loop T 0 p) = [next_handle p ..< next_handle p + 32] \<and>
      next_handle (snd (Instantiate T Sort e p)) = next_handle p + 32 \<and>
      fst (Instantiate T Sort e p) = next_handle p \<and>
      unallocated (snd (Instantiate T Sort e p)) = [next_handle p + 1 ..< next_handle p + 32] \<and>
      length (unallocated (snd (Instantiate T Sort e p))) = 31) \<and>
   (unallocated p \<noteq> [] \<longrightarrow>
      next_handle (snd (Instantiate T Sort e p)) = next_handle p \<and>
      fst (Instantiate T Sort e p) = hd (unallocated p) \<and>
      unallocated (snd (Instantiate T Sort e p)) = tl (unallocated p))"
  by (simp add: Instantiate_fst Instantiate_unallocated Instantiate_next_handle
        allocate_loop_unallocated POOL_SIZE_def)

theorem C4_exhaustion_witness:
  "unallocated pool0 = [] \<and>
   length (unallocated (snd (Instantiate component_T Sort_default 1 pool0))) = 31 \<and>
   next_handle (snd (Instantiate component_T Sort_default 1 pool0)) = 32 \<and>
   unallocated pool3 \<noteq> [] \<and>
   next_handle (snd (Instantiate component_T Sort_default 1 pool3)) = 4 \<and>
   unallocated (snd (Instantiate component_T Sort_default 1 pool3)) = []"
  using C4_exhaustion [of pool0 component_T Sort_default 1]
        C4_exhaustion [of pool3 component_T Sort_default 1]
  by (simp add: pool0_def initial_pool_def pool3_def)

subsection \<open>The order after an acquire\<close>

lemma sorted_wrt_rel_on_set:
  "sorted_wrt P xs \<Longrightarrow> (\<And>x y. x \<in> set xs \<Longrightarrow> y \<in> set xs \<Longrightarrow> P x y \<Longrightarrow> Q x y)
     \<Longrightarrow> sorted_wrt Q xs"
  by (induction xs) auto

lemma MeshRenderer_sorted:
  "sorted_wrt (\<lambda>a b. \<not> MeshRenderer_less GetMaterial GetTransparent objs b a) xs
     \<Longrightarrow> opaque_first_by_material GetMaterial GetTransparent objs xs"
  unfolding opaque_first_by_material_def
  by (erule sorted_wrt_rel_on_set) (auto simp: MeshRenderer_less_def split: if_splits)

lemma Light_sorted:
  "sorted_wrt (\<lambda>a b. \<not> Light_less GetType objs b a) xs \<Longrightarrow> type_descending GetType objs xs"
  unfolding type_descending_def
  by (erule sorted_wrt_rel_on_set) (auto simp: Light_less_def)

lemma type_descending_contiguous:
  fixes GetType :: "'c \<Rightarrow> 't::linorder"
  assumes "type_descending GetType objs xs"
  shows "contiguous_by_type GetType objs xs"
  unfolding contiguous_by_type_def
proof (intro allI impI)
  fix k j i
  assume k: "k < length xs" and j: "j < k" and i: "i < j"
    and eq: "GetType (objs (xs ! i)) = GetType (objs (xs ! k))"
  from assms have s: "\<And>m n. m < n \<Longrightarrow> n < length xs \<Longrightarrow>
      GetType (objs (xs ! n)) \<le> GetType (objs (xs ! m))"
    unfolding type_descending_def by (simp add: sorted_wrt_iff_nth_less)
  from s [of i j] i j k have "GetType (objs (xs ! j)) \<le> GetType (objs (xs ! i))" by simp
  moreover from s [of j k] j k have "GetType (objs (xs ! k)) \<le> GetType (objs (xs ! j))" by simp
  ultimately show "GetType (objs (xs ! j)) = GetType (objs (xs ! i))" using eq by simp
qed

lemma Sort_MeshRenderer_sorted:
  "std_sort_contract srt \<Longrightarrow>
     opaque_first_by_material GetMaterial GetTransparent objs
       (Sort_MeshRenderer srt GetMaterial GetTransparent objs xs)"
  unfolding Sort_MeshRenderer_def
  by (rule MeshRenderer_sorted) (simp add: std_sort_contract_def MeshRenderer_less_swo)

lemma Sort_Light_sorted:
  "std_sort_contract srt \<Longrightarrow> type_descending GetType objs (Sort_Light srt GetType objs xs)"
  unfolding Sort_Light_def
  by (rule Light_sorted) (simp add: std_sort_contract_def Light_less_swo)

text \<open>
  Claim C1. After any sequence of acquires and releases on the pool of
  \<^verbatim>\<open>MeshRenderer\<close>, started in any pool state, that ends with an acquire, the active
  sequence has every component with an opaque material before every component
  with a transparent one, and inside each of the two groups the addresses of the
  materials do not decrease. This holds for every \<^verbatim>\<open>std::sort\<close> that keeps the
  contract of the standard, and for the objects as they are when \<^verbatim>\<open>Instantiate\<close>
  returns.
\<close>
theorem C1_renderers_sorted_after_acquire:
  assumes "std_sort_contract srt"
  shows "opaque_first_by_material GetMaterial GetTransparent
           (objects (run T (Sort_MeshRenderer srt GetMaterial GetTransparent) (ops @ [Acquire e]) p))
           (allocated (run T (Sort_MeshRenderer srt GetMaterial GetTransparent) (ops @ [Acquire e]) p))"
  by (simp add: run_append Instantiate_allocated Sort_MeshRenderer_sorted [OF assms])

theorem C1_renderers_sorted_after_acquire_witness:
  "std_sort_contract (insertion_sort :: (handle \<Rightarrow> handle \<Rightarrow> bool) \<Rightarrow> handle list \<Rightarrow> handle list) \<and>
   allocated (run component_T (Sort_MeshRenderer insertion_sort sort_key odd_transparent)
                [Release 1, Acquire 5] pool3) = [3, 2, 0] \<and>
   opaque_first_by_material sort_key odd_transparent
     (objects (run component_T (Sort_MeshRenderer insertion_sort sort_key odd_transparent)
                [Release 1, Acquire 5] pool3))
     [3, 2, 0]"
  using C1_renderers_sorted_after_acquire [OF insertion_sort_contract,
          of sort_key odd_transparent component_T "[Release 1]" 5 pool3]
        insertion_sort_contract
  by (simp add: Instantiate_front Free_def Let_def pool3_def objects3_def component_T_def
        component_with_def Sort_MeshRenderer_def MeshRenderer_less_def odd_transparent_def)

text \<open>
  Claim C2. After any sequence of acquires and releases on the pool of \<^verbatim>\<open>Light\<close>,
  started in any pool state, that ends with an acquire, the light types do not
  increase along the active sequence, and the lights of one type stand next to
  each other.
\<close>
theorem C2_lights_grouped_after_acquire:
  fixes GetType :: "'c \<Rightarrow> 't::linorder"
  assumes "std_sort_contract srt"
  shows "type_descending GetType
           (objects (run T (Sort_Light srt GetType) (ops @ [Acquire e]) p))
           (allocated (run T (Sort_Light srt GetType) (ops @ [Acquire e]) p)) \<and>
         contiguous_by_type GetType
           (objects (run T (Sort_Light srt GetType) (ops @ [Acquire e]) p))
           (allocated (run T (Sort_Light srt GetType) (ops @ [Acquire e]) p))"
  by (simp add: run_append Instantiate_allocated Sort_Light_sorted [OF assms]
        type_descending_contiguous)

theorem C2_lights_grouped_after_acquire_witness:
  "std_sort_contract (insertion_sort :: (handle \<Rightarrow> handle \<Rightarrow> bool) \<Rightarrow> handle list \<Rightarrow> handle list) \<and>
   allocated (run component_T (Sort_Light insertion_sort sort_key) [Release 1, Acquire 5] pool3)
     = [0, 2, 3] \<and>
   type_descending sort_key
     (objects (run component_T (Sort_Light insertion_sort sort_key) [Release 1, Acquire 5] pool3))
     [0, 2, 3]"
  using C2_lights_grouped_after_acquire [OF insertion_sort_contract,
          of sort_key component_T "[Release 1]" 5 pool3]
        insertion_sort_contract
  by (simp add: Instantiate_front Free_def Let_def pool3_def objects3_def component_T_def
        component_with_def Sort_Light_def Light_less_def)

subsection \<open>Counting and disjointness\<close>

lemma pool_Sort_mset:
  fixes GetType :: "'c \<Rightarrow> 't::linorder"
  assumes "std_sort_contract srt" and "pool_Sort srt GetMaterial GetTransparent GetType Sort"
  shows "mset (Sort objs xs) = mset xs"
proof -
  from assms(2) consider "Sort = Sort_default"
    | "Sort = Sort_MeshRenderer srt GetMaterial GetTransparent"
    | "Sort = Sort_Light srt GetType"
    unfolding pool_Sort_def by blast
  then show ?thesis
  proof cases
    case 1
    then show ?thesis by (simp add: Sort_default_def)
  next
    case 2
    have "strict_weak_order (MeshRenderer_less GetMaterial GetTransparent objs)"
      by (rule MeshRenderer_less_swo)
    with assms(1) 2 show ?thesis
      unfolding std_sort_contract_def Sort_MeshRenderer_def by blast
  next
    case 3
    have "strict_weak_order (Light_less GetType objs)" by (rule Light_less_swo)
    with assms(1) 3 show ?thesis
      unfolding std_sort_contract_def Sort_Light_def by blast
  qed
qed

lemma Instantiate_inv:
  assumes perm: "\<And>objs xs. mset (Sort objs xs) = mset xs" and inv: "pool_inv p"
  shows "pool_inv (snd (Instantiate T Sort e p))"
    and "length (allocated (snd (Instantiate T Sort e p))) = Suc (length (allocated p))"
proof -
  let ?c = "fst (Instantiate T Sort e p)"
  let ?p' = "snd (Instantiate T Sort e p)"
  have m: "mset (allocated ?p') = mset (allocated p @ [?c])"
    by (subst Instantiate_allocated) (rule perm)
  then have s: "set (allocated ?p') = set (allocated p @ [?c])" by (rule mset_eq_setD)
  from m have d: "distinct (allocated ?p') = distinct (allocated p @ [?c])"
    by (rule mset_eq_imp_distinct_iff)
  from m have "length (allocated ?p') = length (allocated p @ [?c])" by (rule mset_eq_length)
  then show "length (allocated ?p') = Suc (length (allocated p))" by simp
  from inv have da: "distinct (allocated p)" and du: "distinct (unallocated p)"
    and dj: "set (allocated p) \<inter> set (unallocated p) = {}"
    and ba: "\<And>h. h \<in> set (allocated p) \<Longrightarrow> h < next_handle p"
    and bu: "\<And>h. h \<in> set (unallocated p) \<Longrightarrow> h < next_handle p"
    unfolding pool_inv_def by auto
  show "pool_inv ?p'"
  proof (cases "unallocated p = []")
    case True
    then have c: "?c = next_handle p"
      and u: "unallocated ?p' = [Suc (next_handle p) ..< next_handle p + 32]"
      and n: "next_handle ?p' = next_handle p + 32"
      by (simp_all add: Instantiate_fst Instantiate_unallocated Instantiate_next_handle)
    have "next_handle p \<notin> set (allocated p)" using ba by blast
    moreover have "\<And>h. h \<in> set (allocated p) \<Longrightarrow> \<not> Suc (next_handle p) \<le> h"
      using ba by fastforce
    moreover have "\<And>h. h \<in> set (allocated p) \<Longrightarrow> h < next_handle p + 32"
      using ba by (simp add: trans_less_add1)
    ultimately show ?thesis
      unfolding pool_inv_def using da by (auto simp: s d c u n)
  next
    case False
    then obtain x xs where ux: "unallocated p = x # xs" by (cases "unallocated p") auto
    then have c: "?c = x" and u: "unallocated ?p' = xs" and n: "next_handle ?p' = next_handle p"
      by (simp_all add: Instantiate_fst Instantiate_unallocated Instantiate_next_handle)
    from du dj bu ux have "x \<notin> set xs" "x \<notin> set (allocated p)" "distinct xs"
      "set (allocated p) \<inter> set xs = {}" "x < next_handle p"
      "\<And>h. h \<in> set xs \<Longrightarrow> h < next_handle p"
      by auto
    then show ?thesis
      unfolding pool_inv_def using da ba by (auto simp: s d c u n)
  qed
qed

lemma Free_inv:
  assumes act: "component \<in> set (allocated p)" and inv: "pool_inv p"
  shows "pool_inv (Free T component p)"
    and "Suc (length (allocated (Free T component p))) = length (allocated p)"
proof -
  from inv have da: "distinct (allocated p)" unfolding pool_inv_def by simp
  then have r: "removeAll component (allocated p) = remove1 component (allocated p)"
    by (simp add: distinct_remove1_removeAll)
  from act have "0 < length (allocated p)" by (cases "allocated p") auto
  with act show "Suc (length (allocated (Free T component p))) = length (allocated p)"
    by (simp add: Free_allocated r length_remove1)
  from inv act show "pool_inv (Free T component p)"
    unfolding pool_inv_def
    by (auto simp: Free_allocated Free_unallocated Free_next_handle distinct_removeAll)
qed

lemma run_inv:
  assumes perm: "\<And>objs xs. mset (Sort objs xs) = mset xs"
  shows "pool_inv p \<Longrightarrow> releases_active T Sort ops p \<Longrightarrow>
           pool_inv (run T Sort ops p) \<and>
           length (allocated (run T Sort ops p)) + releases ops =
             length (allocated p) + acquires ops"
proof (induction ops arbitrary: p)
  case Nil
  then show ?case by simp
next
  case (Cons x xs)
  show ?case
  proof (cases x)
    case (Acquire e)
    from Cons.prems(1) have i: "pool_inv (snd (Instantiate T Sort e p))"
      and l: "length (allocated (snd (Instantiate T Sort e p))) = Suc (length (allocated p))"
      by (rule Instantiate_inv [OF perm])+
    from Cons.prems(2) Acquire
    have "releases_active T Sort xs (snd (Instantiate T Sort e p))" by simp
    with i have "pool_inv (run T Sort xs (snd (Instantiate T Sort e p))) \<and>
      length (allocated (run T Sort xs (snd (Instantiate T Sort e p)))) + releases xs =
        length (allocated (snd (Instantiate T Sort e p))) + acquires xs"
      by (rule Cons.IH)
    with l Acquire show ?thesis by simp
  next
    case (Release c)
    with Cons.prems(2) have act: "c \<in> set (allocated p)"
      and ra: "releases_active T Sort xs (Free T c p)" by simp_all
    from act Cons.prems(1) have i: "pool_inv (Free T c p)"
      and l: "Suc (length (allocated (Free T c p))) = length (allocated p)"
      by (rule Free_inv)+
    from i ra have "pool_inv (run T Sort xs (Free T c p)) \<and>
      length (allocated (run T Sort xs (Free T c p))) + releases xs =
        length (allocated (Free T c p)) + acquires xs"
      by (rule Cons.IH)
    with l Release show ?thesis by simp
  qed
qed

lemma releases_active_take:
  "releases_active T Sort ops p \<Longrightarrow> releases_active T Sort (take n ops) p"
proof (induction ops arbitrary: n p)
  case Nil
  then show ?case by simp
next
  case (Cons x xs)
  show ?case
  proof (cases n)
    case 0
    then show ?thesis by simp
  next
    case (Suc m)
    with Cons show ?thesis by (cases x) simp_all
  qed
qed

lemma initial_pool_inv: "pool_inv (initial_pool c0)"
  by (simp add: pool_inv_def initial_pool_def)

lemma acquires_take: "acquires (take n ops) \<le> acquires ops"
proof (induction ops arbitrary: n)
  case Nil
  then show ?case by simp
next
  case (Cons x xs)
  show ?case
  proof (cases n)
    case 0
    then show ?thesis by simp
  next
    case (Suc m)
    with Cons [of m] show ?thesis by (cases x) simp_all
  qed
qed

text \<open>
  Claim C3. For each of the three pool types (the default \<^verbatim>\<open>Sort\<close> and the two
  specialisations) and every sequence of acquires and releases, started with the
  empty pool, in which every release is given a handle that is in the active
  sequence at that moment: after each operation of the sequence,
  \<^verbatim>\<open>GetActiveCount()\<close> is the number of acquires so far minus the number of releases
  so far, and no handle is in both the active sequence and the free queue. The
  count is the one that \<^verbatim>\<open>GetActiveCount()\<close> returns as an \<^verbatim>\<open>int\<close>, for sequences with
  fewer than \<open>2^31\<close> acquires.
\<close>
theorem C3_count_and_disjoint:
  fixes GetType :: "'c \<Rightarrow> 't::linorder"
  assumes "std_sort_contract srt"
    and "pool_Sort srt GetMaterial GetTransparent GetType Sort"
    and "releases_active T Sort ops (initial_pool c0)"
    and "acquires ops < 2 ^ 31"
  shows "GetActiveCount (run T Sort (take n ops) (initial_pool c0)) =
           int (acquires (take n ops)) - int (releases (take n ops)) \<and>
         set (allocated (run T Sort (take n ops) (initial_pool c0))) \<inter>
         set (unallocated (run T Sort (take n ops) (initial_pool c0))) = {}"
proof -
  let ?p = "run T Sort (take n ops) (initial_pool c0)"
  have perm: "\<And>objs xs. mset (Sort objs xs) = mset xs"
    using assms(1,2) by (rule pool_Sort_mset)
  from assms(3) have "releases_active T Sort (take n ops) (initial_pool c0)"
    by (rule releases_active_take)
  with initial_pool_inv
  have "pool_inv ?p \<and>
        length (allocated ?p) + releases (take n ops) =
          length (allocated (initial_pool c0)) + acquires (take n ops)"
    by (rule run_inv [OF perm])
  then have inv: "pool_inv ?p"
    and len: "length (allocated ?p) + releases (take n ops) = acquires (take n ops)"
    by (simp_all add: initial_pool_def)
  from len have "length (allocated ?p) \<le> acquires (take n ops)" by simp
  also have "\<dots> \<le> acquires ops" by (rule acquires_take)
  finally have "length (allocated ?p) < 2 ^ 31" using assms(4) by simp
  then have "GetActiveCount ?p = int (length (allocated ?p))"
    by (simp add: GetActiveCount_def size_to_int_small)
  with len have "GetActiveCount ?p = int (acquires (take n ops)) - int (releases (take n ops))"
    by simp
  moreover from inv have "set (allocated ?p) \<inter> set (unallocated ?p) = {}"
    by (auto simp: pool_inv_def)
  ultimately show ?thesis by simp
qed

theorem C3_count_and_disjoint_witness:
  "std_sort_contract (insertion_sort :: (handle \<Rightarrow> handle \<Rightarrow> bool) \<Rightarrow> handle list \<Rightarrow> handle list) \<and>
   pool_Sort insertion_sort sort_key odd_transparent sort_key
     (Sort_default :: (handle \<Rightarrow> component) \<Rightarrow> handle list \<Rightarrow> handle list) \<and>
   releases_active component_T Sort_default [Acquire 1, Release 0, Acquire 2] pool0 \<and>
   acquires [Acquire 1, Release 0, Acquire 2] < 2 ^ 31 \<and>
   GetActiveCount (run component_T Sort_default [Acquire 1, Release 0, Acquire 2] pool0) = 1 \<and>
   allocated (run component_T Sort_default [Acquire 1, Release 0, Acquire 2] pool0) = [1]"
  using C3_count_and_disjoint [OF insertion_sort_contract,
          of sort_key odd_transparent sort_key Sort_default component_T
             "[Acquire 1, Release 0, Acquire 2]" "make_shared component_T" 3]
        insertion_sort_contract
  by (simp add: pool0_def pool_Sort_def Instantiate_allocated Instantiate_fst
        Instantiate_unallocated Free_allocated Free_unallocated Sort_default_def
        initial_pool_def upt_conv_Cons)

subsection \<open>Release\<close>

lemma sorted_wrt_removeAll_update:
  assumes "sorted_wrt (\<lambda>a b. R (objs a) (objs b)) xs"
  shows "sorted_wrt (\<lambda>a b. R ((objs(c := v)) a) ((objs(c := v)) b)) (removeAll c xs)"
proof -
  have "sorted_wrt (\<lambda>a b. R (objs a) (objs b)) (removeAll c xs)"
    using assms by (simp add: removeAll_filter_not_eq sorted_wrt_filter)
  then show ?thesis
    by (rule sorted_wrt_rel_on_set) auto
qed

text \<open>
  Claim C5, as the code has it. \<^verbatim>\<open>Free\<close> makes no test of its argument and has no
  way to signal an error. Given a handle that is not in the active sequence it
  still calls \<^verbatim>\<open>component->Free()\<close> and appends the handle to the free queue; the
  active sequence and the allocator stay as they were. Guarding the call is left
  to the caller.
\<close>
theorem C5_release_of_inactive_handle:
  assumes "component \<notin> set (allocated p)"
  shows "allocated (Free T component p) = allocated p \<and>
         unallocated (Free T component p) = unallocated p @ [component] \<and>
         next_handle (Free T component p) = next_handle p \<and>
         objects (Free T component p) =
           (objects p)(component := IComponent_Free T (objects p component))"
  using assms by (simp add: Free_allocated Free_unallocated Free_next_handle Free_objects)

theorem C5_release_of_inactive_handle_witness:
  "3 \<notin> set (allocated pool3) \<and>
   allocated (Free component_T 3 pool3) = [0, 1, 2] \<and>
   unallocated (Free component_T 3 pool3) = [3, 3] \<and>
   next_handle (Free component_T 3 pool3) = 4"
  using C5_release_of_inactive_handle [of 3 pool3 component_T]
  by (simp add: pool3_def)

text \<open>
  The claim C5 as it is written fails: in the pool before any operation no handle
  is or ever was active, yet \<^verbatim>\<open>Free\<close> of the handle 0 returns normally with the handle
  on the free queue, and the pool is not what it was.
\<close>
theorem C5_counterexample:
  "0 \<notin> set (allocated pool0) \<and>
   allocated (Free component_T 0 pool0) = [] \<and>
   unallocated (Free component_T 0 pool0) = [0] \<and>
   Free component_T 0 pool0 \<noteq> pool0"
proof -
  have "unallocated (Free component_T 0 pool0) = [0]"
    by (simp add: Free_unallocated pool0_def initial_pool_def)
  moreover have "unallocated pool0 = []" by (simp add: pool0_def initial_pool_def)
  ultimately have "Free component_T 0 pool0 \<noteq> pool0" by auto
  then show ?thesis
    by (simp add: Free_allocated Free_unallocated pool0_def initial_pool_def)
qed

text \<open>
  Claim C10. \<^verbatim>\<open>Free\<close> deletes from the active sequence the occurrences of the handle
  it is given and keeps the other components in the order they had; it does not
  sort. So the order of a renderer pool (opaque first, then by material) and the
  order of a light pool (type descending) hold after a release when they held
  before it.
\<close>
theorem C10_release_keeps_order:
  fixes GetType :: "'c \<Rightarrow> 't::linorder"
  shows "allocated (Free T component p) = filter (\<lambda>c. c \<noteq> component) (allocated p) \<and>
   (opaque_first_by_material GetMaterial GetTransparent (objects p) (allocated p) \<longrightarrow>
      opaque_first_by_material GetMaterial GetTransparent
        (objects (Free T component p)) (allocated (Free T component p))) \<and>
   (type_descending GetType (objects p) (allocated p) \<longrightarrow>
      type_descending GetType (objects (Free T component p)) (allocated (Free T component p)))"
proof (intro conjI impI)
  show "allocated (Free T component p) = filter (\<lambda>c. c \<noteq> component) (allocated p)"
    by (simp add: Free_allocated removeAll_filter_not_eq) (metis)
next
  assume "opaque_first_by_material GetMaterial GetTransparent (objects p) (allocated p)"
  then show "opaque_first_by_material GetMaterial GetTransparent
        (objects (Free T component p)) (allocated (Free T component p))"
    unfolding opaque_first_by_material_def Free_allocated Free_objects
    by (rule sorted_wrt_removeAll_update)
next
  assume "type_descending GetType (objects p) (allocated p)"
  then show "type_descending GetType (objects (Free T component p)) (allocated (Free T component p))"
    unfolding type_descending_def Free_allocated Free_objects
    by (rule sorted_wrt_removeAll_update)
qed

theorem C10_release_keeps_order_witness:
  "2 \<in> set (allocated pool_by_material) \<and>
   opaque_first_by_material sort_key odd_transparent (objects pool_by_material) [1, 2, 0] \<and>
   allocated (Free component_T 2 pool_by_material) = [1, 0] \<and>
   opaque_first_by_material sort_key odd_transparent
     (objects (Free component_T 2 pool_by_material)) [1, 0] \<and>
   type_descending sort_key (objects pool_by_type) [0, 2, 1] \<and>
   allocated (Free component_T 2 pool_by_type) = [0, 1] \<and>
   type_descending sort_key (objects (Free component_T 2 pool_by_type)) [0, 1]"
  using C10_release_keeps_order [of component_T 2 pool_by_material sort_key odd_transparent sort_key]
        C10_release_keeps_order [of component_T 2 pool_by_type sort_key odd_transparent sort_key]
  by (simp add: Free_allocated Free_objects
        pool_by_material_def pool_by_type_def pool3_def objects3_def component_with_def
        opaque_first_by_material_def type_descending_def odd_transparent_def component_T_def)

section \<open>Facts about the game loop\<close>

lemma Flashlight_flashMenuToggle:
  "flashMenuToggle (Flashlight toggleFlashlight toggleFlicker g) =
     (if toggleFlashlight then \<not> flashMenuToggle g else flashMenuToggle g)"
  by (simp add: Flashlight_def FlickeringCheck_def Let_def)

lemma Flashlight_lights_enabled:
  "lights_enabled (Flashlight toggleFlashlight toggleFlicker g) =
     (lights_enabled g)[flashlight g :=
        flashMenuToggle (Flashlight toggleFlashlight toggleFlicker g)]"
  by (simp add: Flashlight_def FlickeringCheck_def Let_def)

lemma Flashlight_flashlight:
  "flashlight (Flashlight toggleFlashlight toggleFlicker g) = flashlight g"
  by (simp add: Flashlight_def FlickeringCheck_def Let_def)

text \<open>
  Claim C7, as the code has it. \<^verbatim>\<open>Game::Draw\<close> renders the flashlight shadow map
  exactly when \<^verbatim>\<open>flashMenuToggle\<close> is set, and then once, from the flashlight's
  shadow camera. \<^verbatim>\<open>Game::Flashlight\<close>, which runs in every \<^verbatim>\<open>Update\<close>, leaves the
  flashlight's \<^verbatim>\<open>enabled\<close> flag equal to \<^verbatim>\<open>flashMenuToggle\<close>, so in a \<^verbatim>\<open>Draw\<close> that
  follows it the flashlight shadow map is rendered exactly when the flashlight is
  enabled. The environment shadow map is rendered in every \<^verbatim>\<open>Draw\<close>, whatever the
  \<^verbatim>\<open>enabled\<close> flags of the lights are.
\<close>
theorem C7_shadow_passes:
  "(Renderer_RenderShadows cam FLASHLIGHT_SHADOW \<in> set (Draw g)) =
     (flashMenuToggle g \<and> cam = flashShadowCamera g) \<and>
   count_list (Draw g) (Renderer_RenderShadows (flashShadowCamera g) FLASHLIGHT_SHADOW) =
     (if flashMenuToggle g then 1 else 0) \<and>
   (flashlight g < length (lights_enabled g) \<longrightarrow>
     (Renderer_RenderShadows (flashShadowCamera (Flashlight toggleFlashlight toggleFlicker g))
        FLASHLIGHT_SHADOW \<in> set (Draw (Flashlight toggleFlashlight toggleFlicker g))) =
     lights_enabled (Flashlight toggleFlashlight toggleFlicker g) ! flashlight g) \<and>
   count_list (Draw g) (Renderer_RenderShadows (mainShadowCamera g) ENV_SHADOW) = 1"
  by (auto simp add: Draw_def Flashlight_flashMenuToggle Flashlight_lights_enabled)

theorem C7_shadow_passes_witness:
  "flashlight game0 < length (lights_enabled game0) \<and>
   lights_enabled (Flashlight True False game0) = [False, False, False, False, True] \<and>
   Draw (Flashlight True False game0) =
     [Renderer_RenderShadows (Some 11) FLASHLIGHT_SHADOW,
      Renderer_RenderShadows (Some 12) ENV_SHADOW, Renderer_Draw (Some 10)] \<and>
   lights_enabled (Flashlight False False game0) = [False, False, False, False, False] \<and>
   Draw (Flashlight False False game0) =
     [Renderer_RenderShadows (Some 12) ENV_SHADOW, Renderer_Draw (Some 10)]"
  using C7_shadow_passes [of "Some 11" game0 True False]
        C7_shadow_passes [of "Some 11" game0 False False]
  by (simp add: game0_def Draw_def Flashlight_def FlickeringCheck_def Let_def)

text \<open>
  The claim C7 as it is written fails for the environment shadow map: with every
  light disabled and the flashlight off, \<^verbatim>\<open>Game::Draw\<close> still renders it.
\<close>
theorem C7_counterexample:
  "lights_enabled game0 = [False, False, False, False, False] \<and>
   Draw game0 = [Renderer_RenderShadows (Some 12) ENV_SHADOW, Renderer_Draw (Some 10)]"
  by (simp add: game0_def Draw_def)

text \<open>What \<open>precedes\<close> says, by positions.\<close>

lemma precedes_iff_nth:
  "precedes a b xs \<longleftrightarrow> (\<exists>i j. i < j \<and> j < length xs \<and> xs ! i = a \<and> xs ! j = b)"
proof (induction xs)
  case Nil
  then show ?case by simp
next
  case (Cons x xs)
  show ?case
  proof
    assume "precedes a b (x # xs)"
    then consider "x = a" "b \<in> set xs" | "precedes a b xs" by auto
    then show "\<exists>i j. i < j \<and> j < length (x # xs) \<and> (x # xs) ! i = a \<and> (x # xs) ! j = b"
    proof cases
      case 1
      then obtain k where "k < length xs" "xs ! k = b" by (auto simp: in_set_conv_nth)
      with 1 have "0 < Suc k \<and> Suc k < length (x # xs) \<and> (x # xs) ! 0 = a \<and> (x # xs) ! Suc k = b"
        by simp
      then show ?thesis by blast
    next
      case 2
      with Cons.IH obtain i j where "i < j" "j < length xs" "xs ! i = a" "xs ! j = b" by blast
      then have "Suc i < Suc j \<and> Suc j < length (x # xs) \<and> (x # xs) ! Suc i = a \<and> (x # xs) ! Suc j = b"
        by simp
      then show ?thesis by blast
    qed
  next
    assume "\<exists>i j. i < j \<and> j < length (x # xs) \<and> (x # xs) ! i = a \<and> (x # xs) ! j = b"
    then obtain i j where ij: "i < j" "j < length (x # xs)" "(x # xs) ! i = a" "(x # xs) ! j = b"
      by blast
    then obtain j' where j': "j = Suc j'" by (cases j) auto
    show "precedes a b (x # xs)"
    proof (cases i)
      case 0
      with ij j' have "x = a" "b \<in> set xs" by auto
      then show ?thesis by simp
    next
      case (Suc i')
      with ij j' have "i' < j' \<and> j' < length xs \<and> xs ! i' = a \<and> xs ! j' = b" by auto
      then have "precedes a b xs" using Cons.IH by blast
      then show ?thesis by simp
    qed
  qed
qed





text \<open>
  The test \<^verbatim>\<open>mainCamera != 0\<close>: with no main camera the three other calls are made
  all the same, and no projection matrix is updated.
\<close>
lemma OnResize_without_camera:
  "mainCamera g = None \<Longrightarrow>
     snd (OnResize dx g) =
       [Renderer_PreResize, DXCore_OnResize,
        Renderer_PostResize (height (dx (core g))) (width (dx (core g)))
          (backBufferRTV (dx (core g))) (depthStencilView (dx (core g)))]"
  by (simp add: OnResize_def Let_def)

section \<open>Facts about the loading screen\<close>









end
